theory Spec2Isabelle
  imports Complex_Main "HOL-Library.Multiset" "HOL-Library.List_Lexorder"
begin

section \<open>Values, cards and errors\<close>

text \<open>
  A card is a Python dictionary parsed from a JSON object: a finite map from field names to
  values. Equality of maps is extensional, as \<^verbatim>\<open>==\<close> on dictionaries is. The values
  covered are \<^verbatim>\<open>None\<close>, integers, strings and lists of these, on which \<^verbatim>\<open>==\<close> is
  structural equality.
\<close>

datatype pyval = PNone | PInt int | PStr string | PList "pyval list"

type_synonym card = "string \<rightharpoonup> pyval"

text \<open>
  The \<^verbatim>\<open>str\<close> values of file names, paths, messages and JSON texts are lists of code
  points: \<^verbatim>\<open>len\<close> counts code points, and \<^verbatim>\<open>sorted\<close> compares strings code point by code
  point, a proper prefix before its extensions, which is the lexicographic order on lists
  of numbers. \<open>py\<close> writes such a string from its ASCII characters.
\<close>

type_synonym pystr = "nat list"

definition py :: "string \<Rightarrow> pystr" where
  "py s = map of_char s"

text \<open>
  The exceptions, by class; with the message where the program writes it and the key where
  a dictionary lookup fails (a field name, or a list position used as a key).
\<close>

datatype error =
    RuntimeError pystr
  | IndexError
  | KeyError string
  | KeyErrorIndex nat
  | TypeError
  | AttributeError
  | OSError pystr

text \<open>
  \<^verbatim>\<open>xs[i]\<close> on a Python list: an index from \<open>-len\<close> up to \<open>-1\<close> counts from the end,
  anything outside \<open>-len .. len - 1\<close> raises \<^verbatim>\<open>IndexError\<close>.
\<close>

definition getitem :: "'a list \<Rightarrow> int \<Rightarrow> error + 'a" where
  "getitem xs i =
     (if 0 \<le> i \<and> i < int (length xs) then Inr (xs ! nat i)
      else if - int (length xs) \<le> i \<and> i < 0 then Inr (xs ! nat (int (length xs) + i))
      else Inl IndexError)"

section \<open>random.shuffle\<close>

text \<open>
  \<^verbatim>\<open>random.shuffle(x)\<close> of the standard library walks \<open>i\<close> from \<open>len(x) - 1\<close> down to
  \<open>1\<close>, draws \<open>j = randbelow(i + 1)\<close> and exchanges \<open>x[i]\<close> and \<open>x[j]\<close>. The generator is
  a parameter \<open>rnd\<close>: the draw below the bound \<open>n\<close> is \<open>rnd n mod n\<close>, so every sequence
  of draws the generator can make is some \<open>rnd\<close>.
\<close>

definition randbelow :: "(nat \<Rightarrow> nat) \<Rightarrow> nat \<Rightarrow> nat" where
  "randbelow rnd n = rnd n mod n"

fun shuffle_from :: "(nat \<Rightarrow> nat) \<Rightarrow> nat \<Rightarrow> 'a list \<Rightarrow> 'a list" where
  "shuffle_from rnd 0 x = x"
| "shuffle_from rnd (Suc k) x =
     (let i = Suc k; j = randbelow rnd (i + 1)
      in shuffle_from rnd k (x[i := x ! j, j := x ! i]))"

definition random_shuffle :: "(nat \<Rightarrow> nat) \<Rightarrow> 'a list \<Rightarrow> 'a list" where
  "random_shuffle rnd x = shuffle_from rnd (length x - 1) x"

section \<open>Deck prep\<close>

text \<open>
  What \<^verbatim>\<open>json.load\<close> can return: any JSON value. A float is a rational number or one of
  the three values \<^verbatim>\<open>NaN\<close>, \<^verbatim>\<open>Infinity\<close> and \<^verbatim>\<open>-Infinity\<close>, which the parser accepts as
  well. An object is the list of its members in the order of the document; the dictionary
  built from it keeps, for a name that occurs twice, the later member. The game state
  further down takes its cards as maps, whatever document they were read from.
\<close>

datatype pyfloat = Finite rat | NaN | Infinity bool

datatype json =
    JNull
  | JBool bool
  | JInt int
  | JFloat pyfloat
  | JStr pystr
  | JArr "json list"
  | JObj "(pystr \<times> json) list"







text \<open>
  What the two functions ask of the operating system: \<^verbatim>\<open>os.path.isdir\<close>, \<^verbatim>\<open>os.listdir\<close>
  (which may raise, for instance on a directory that cannot be read), and \<^verbatim>\<open>open\<close>
  followed by \<^verbatim>\<open>json.load\<close>, whose outcome at a path is either the text of the
  exception raised or the parsed value.
\<close>

record system =
  isdir :: "pystr \<Rightarrow> bool"
  listdir :: "pystr \<Rightarrow> error + pystr list"
  json_load :: "pystr \<Rightarrow> pystr + json"

text \<open>
  \<^verbatim>\<open>str.lower\<close>, \<^verbatim>\<open>str.endswith\<close> and \<^verbatim>\<open>str.startswith\<close>. Lowering is written out for
  the letters \<open>A\<close> to \<open>Z\<close>. No other code point has a lower-case form that contains one of
  the characters of \<^verbatim>\<open>.json\<close>, so the test for that suffix comes out as it does on the
  fully lowered name.
\<close>

definition lower_char :: "nat \<Rightarrow> nat" where
  "lower_char c = (if 65 \<le> c \<and> c \<le> 90 then c + 32 else c)"

definition lower :: "pystr \<Rightarrow> pystr" where
  "lower s = map lower_char s"

definition endswith :: "pystr \<Rightarrow> pystr \<Rightarrow> bool" where
  "endswith s suf \<longleftrightarrow> length suf \<le> length s \<and> drop (length s - length suf) s = suf"

definition startswith :: "pystr \<Rightarrow> pystr \<Rightarrow> bool" where
  "startswith s pre \<longleftrightarrow> take (length pre) s = pre"

text \<open>
  \<^verbatim>\<open>os.path.join\<close> of two components, with the separator \<open>/\<close>: a second component
  that starts with the separator replaces the first.
\<close>

definition path_join :: "pystr \<Rightarrow> pystr \<Rightarrow> pystr" where
  "path_join a b =
     (if startswith b (py ''/'') then b
      else if a = [] \<or> endswith a (py ''/'') then a @ b
      else a @ py ''/'' @ b)"

definition find_decks :: "system \<Rightarrow> pystr \<Rightarrow> error + pystr list" where
  "find_decks sys directory =
     (if \<not> isdir sys directory then Inr []
      else case listdir sys directory of
             Inl e \<Rightarrow> Inl e
           | Inr names \<Rightarrow>
               Inr (sort (map (path_join directory)
                            (filter (\<lambda>f. endswith (lower f) (py ''.json'')) names))))"



section \<open>Game state: class Flashcards\<close>

record flashcards =
  cards :: "card list"
  index :: int
  score :: int
  total :: int
  missed_cards :: "card list"

text \<open>\<^verbatim>\<open>__init__\<close>: the session owns a copy of the list it is given.\<close>

definition flashcards_init :: "card list \<Rightarrow> flashcards" where
  "flashcards_init cs =
     \<lparr>cards = cs, index = 0, score = 0, total = int (length cs), missed_cards = []\<rparr>"

definition current :: "flashcards \<Rightarrow> error + card" where
  "current s = getitem (cards s) (index s)"

definition has_next :: "flashcards \<Rightarrow> bool" where
  "has_next s \<longleftrightarrow> index s < int (length (cards s))"

text \<open>
  \<^verbatim>\<open>check\<close> returns its outcome (the exception raised or the boolean returned) with the
  state it leaves behind. Both exceptions are raised while the condition of the first
  \<^verbatim>\<open>if\<close> is evaluated, before any field is written.
\<close>

definition check :: "pyval \<Rightarrow> flashcards \<Rightarrow> (error + bool) \<times> flashcards" where
  "check selected s =
     (case current s of
        Inl e \<Rightarrow> (Inl e, s)
      | Inr c \<Rightarrow>
          (case c ''answer'' of
             None \<Rightarrow> (Inl (KeyError ''answer''), s)
           | Some a \<Rightarrow>
               if selected = a then (Inr True, s\<lparr>score := score s + 1\<rparr>)
               else if c \<notin> set (missed_cards s)
                 then (Inr False, s\<lparr>missed_cards := missed_cards s @ [c]\<rparr>)
                 else (Inr False, s)))"

text \<open>The method \<^verbatim>\<open>next\<close>.\<close>

definition next_card :: "flashcards \<Rightarrow> flashcards" where
  "next_card s = s\<lparr>index := index s + 1\<rparr>"

definition reset_for_review :: "(nat \<Rightarrow> nat) \<Rightarrow> flashcards \<Rightarrow> flashcards" where
  "reset_for_review rnd s =
     (let cs = random_shuffle rnd (missed_cards s)
      in s\<lparr>cards := cs, missed_cards := [], index := 0, score := 0,
            total := int (length cs)\<rparr>)"

text \<open>Several submissions in a row, with the value each call returns.\<close>

fun checks :: "pyval list \<Rightarrow> flashcards \<Rightarrow> (error + bool) list \<times> flashcards" where
  "checks [] s = ([], s)"
| "checks (x # xs) s =
     (case check x s of (r, s1) \<Rightarrow> (case checks xs s1 of (rs, s2) \<Rightarrow> (r # rs, s2)))"

text \<open>
  Calls of the methods that write the state, and the state a sequence of calls leaves
  behind (an exception of \<^verbatim>\<open>check\<close> leaves the state as it was).
\<close>

datatype call = Check pyval | Next | ResetForReview "nat \<Rightarrow> nat"

fun do_call :: "flashcards \<Rightarrow> call \<Rightarrow> flashcards" where
  "do_call s (Check selected) = snd (check selected s)"
| "do_call s Next = next_card s"
| "do_call s (ResetForReview rnd) = reset_for_review rnd s"

definition do_calls :: "call list \<Rightarrow> flashcards \<Rightarrow> flashcards" where
  "do_calls cs s = foldl do_call s cs"

fun is_reset :: "call \<Rightarrow> bool" where
  "is_reset (ResetForReview rnd) = True"
| "is_reset c = False"

text \<open>The session states: what the constructor builds and what the methods make of it.\<close>

inductive reachable :: "flashcards \<Rightarrow> bool" where
  r_init: "reachable (flashcards_init cs)"
| r_call: "reachable s \<Longrightarrow> reachable (do_call s c)"

text \<open>What every session state satisfies (see \<open>reachable_inv\<close> below).\<close>

definition session_inv :: "flashcards \<Rightarrow> bool" where
  "session_inv s \<longleftrightarrow>
     total s = int (length (cards s)) \<and> 0 \<le> index s \<and> distinct (missed_cards s)"

text \<open>Two cards of a small arithmetic deck, for the concrete instances below.\<close>

definition card_sum :: card where
  "card_sum = [''question'' \<mapsto> PStr ''2 + 2'',
               ''choices'' \<mapsto> PList [PStr ''3'', PStr ''4'', PStr ''5''],
               ''answer'' \<mapsto> PStr ''4'']"

definition card_product :: card where
  "card_product = [''question'' \<mapsto> PStr ''2 * 3'',
                   ''choices'' \<mapsto> PList [PStr ''5'', PStr ''6''],
                   ''answer'' \<mapsto> PStr ''6'',
                   ''explanation'' \<mapsto> PStr ''two threes'']"

text \<open>
  A machine with one directory \<^verbatim>\<open>decks\<close>. It holds a deck of two cards, a deck without
  a \<^verbatim>\<open>cards\<close> field, a file whose JSON text is an empty array, a file of notes and a
  \<^verbatim>\<open>.json\<close> file that does not parse. \<open>locked_system\<close> is the same machine with the
  directory closed to reading. \<open>draw_first\<close> is the generator whose every draw is zero.
\<close>

definition json_sum :: json where
  "json_sum = JObj [(py ''question'', JStr (py ''2 + 2'')),
                    (py ''choices'', JArr [JStr (py ''3''), JStr (py ''4'')]),
                    (py ''answer'', JStr (py ''4''))]"

definition json_product :: json where
  "json_product = JObj [(py ''question'', JStr (py ''2 * 3'')),
                        (py ''choices'', JArr [JStr (py ''5''), JStr (py ''6'')]),
                        (py ''answer'', JStr (py ''6''))]"


definition example_system :: system where
  "example_system =
     \<lparr>isdir = (\<lambda>d. d = py ''decks''),
      listdir = (\<lambda>d. if d = py ''decks''
                      then Inr [py ''math.json'', py ''notes.txt'', py ''EMPTY.JSON'',
                                py ''list.json'', py ''broken.json'']
                      else Inl (OSError (py ''No such file or directory''))),
      json_load = (\<lambda>p.
         if p = py ''decks/math.json''
           then Inr (JObj [(py ''title'', JStr (py ''Math'')),
                           (py ''cards'', JArr [json_sum, json_product])])
         else if p = py ''decks/EMPTY.JSON''
           then Inr (JObj [(py ''title'', JStr (py ''Nothing yet''))])
         else if p = py ''decks/list.json''
           then Inr (JArr [])
         else if p = py ''decks/broken.json''
           then Inl (py ''Expecting value: line 1 column 1 (char 0)'')
         else Inl (py ''No such file or directory''))\<rparr>"

definition locked_system :: system where
  "locked_system = example_system\<lparr>listdir := (\<lambda>d. Inl (OSError (py ''Permission denied'')))\<rparr>"

section \<open>The shuffle permutes\<close>

lemma mset_shuffle_from: "k \<le> length x - 1 \<Longrightarrow> mset (shuffle_from rnd k x) = mset x"
proof (induction k arbitrary: x)
  case 0
  show ?case by simp
next
  case (Suc k)
  let ?j = "randbelow rnd (Suc k + 1)"
  let ?y = "x[Suc k := x ! ?j, ?j := x ! Suc k]"
  from Suc.prems have lt: "Suc k < length x" by simp
  have "?j < Suc k + 1" unfolding randbelow_def by (rule mod_less_divisor) simp
  with lt have j: "?j < length x" by linarith
  have swap: "mset ?y = mset x" using j lt by (rule mset_swap)
  have "k \<le> length ?y - 1" using lt by simp
  then have "mset (shuffle_from rnd k ?y) = mset ?y" by (rule Suc.IH)
  with swap show ?case by (simp add: Let_def)
qed

lemma mset_random_shuffle: "mset (random_shuffle rnd x) = mset x"
  unfolding random_shuffle_def by (rule mset_shuffle_from) simp

lemma length_random_shuffle: "length (random_shuffle rnd x) = length x"
  using mset_random_shuffle[of rnd x] by (metis size_mset)

section \<open>Facts about the methods\<close>

lemma check_cards: "cards (snd (check x s)) = cards s"
  by (simp add: check_def split: sum.splits option.splits)

lemma check_index: "index (snd (check x s)) = index s"
  by (simp add: check_def split: sum.splits option.splits)

lemma check_total: "total (snd (check x s)) = total s"
  by (simp add: check_def split: sum.splits option.splits)

lemma check_distinct: "distinct (missed_cards s) \<Longrightarrow> distinct (missed_cards (snd (check x s)))"
  by (simp add: check_def split: sum.splits option.splits)

lemma check_has_next: "has_next (snd (check x s)) = has_next s"
  by (simp add: has_next_def check_cards check_index)

lemma check_current: "current (snd (check x s)) = current s"
  by (simp add: current_def check_cards check_index)

lemma inv_init: "session_inv (flashcards_init cs)"
  by (simp add: session_inv_def flashcards_init_def)

lemma inv_check: "session_inv s \<Longrightarrow> session_inv (snd (check x s))"
  by (simp add: session_inv_def check_cards check_index check_total check_distinct)

lemma inv_next: "session_inv s \<Longrightarrow> session_inv (next_card s)"
  by (simp add: session_inv_def next_card_def)

lemma inv_reset: "session_inv (reset_for_review rnd s)"
  by (simp add: session_inv_def reset_for_review_def Let_def)

lemma inv_call: "session_inv s \<Longrightarrow> session_inv (do_call s c)"
  by (cases c) (simp_all add: inv_check inv_next inv_reset)

lemma reachable_inv: "reachable s \<Longrightarrow> session_inv s"
  by (induction rule: reachable.induct) (simp_all add: inv_init inv_call)

lemma current_in_range:
  "0 \<le> index s \<Longrightarrow> has_next s \<Longrightarrow> current s = Inr (cards s ! nat (index s))"
  by (simp add: current_def getitem_def has_next_def)

lemma current_complete: "\<not> has_next s \<Longrightarrow> current s = Inl IndexError"
  by (simp add: current_def getitem_def has_next_def)

lemma check_right:
  "current s = Inr c \<Longrightarrow> c ''answer'' = Some a \<Longrightarrow>
   check a s = (Inr True, s\<lparr>score := score s + 1\<rparr>)"
  by (simp add: check_def)

lemma check_wrong:
  "current s = Inr c \<Longrightarrow> c ''answer'' = Some a \<Longrightarrow> x \<noteq> a \<Longrightarrow>
   check x s =
     (Inr False,
      s\<lparr>missed_cards := (if c \<in> set (missed_cards s) then missed_cards s
                          else missed_cards s @ [c])\<rparr>)"
  by (simp add: check_def)

lemma checks_wrong_again:
  "current s = Inr c \<Longrightarrow> c ''answer'' = Some a \<Longrightarrow> c \<in> set (missed_cards s) \<Longrightarrow>
   \<forall>x\<in>set sels. x \<noteq> a \<Longrightarrow> checks sels s = (replicate (length sels) (Inr False), s)"
  by (induction sels) (simp_all add: check_wrong)

lemma checks_wrong:
  assumes cur: "current s = Inr c" and ans: "c ''answer'' = Some a"
    and ne: "sels \<noteq> []" and wrong: "\<forall>x\<in>set sels. x \<noteq> a"
  shows "checks sels s =
     (replicate (length sels) (Inr False),
      s\<lparr>missed_cards := (if c \<in> set (missed_cards s) then missed_cards s
                          else missed_cards s @ [c])\<rparr>)"
proof -
  from ne obtain x xs where sels: "sels = x # xs" by (cases sels) auto
  let ?s1 = "s\<lparr>missed_cards := (if c \<in> set (missed_cards s) then missed_cards s
                          else missed_cards s @ [c])\<rparr>"
  from wrong sels have "x \<noteq> a" by simp
  with cur ans have first: "check x s = (Inr False, ?s1)" by (rule check_wrong)
  have cur1: "current ?s1 = Inr c" using cur by (simp add: current_def)
  have mem: "c \<in> set (missed_cards ?s1)" by simp
  from wrong sels have "\<forall>x\<in>set xs. x \<noteq> a" by simp
  with cur1 ans mem have "checks xs ?s1 = (replicate (length xs) (Inr False), ?s1)"
    by (rule checks_wrong_again)
  with first sels show ?thesis by simp
qed

lemma count_list_distinct:
  "distinct xs \<Longrightarrow> count_list xs x = (if x \<in> set xs then 1 else 0)"
  by (induction xs) auto

lemma index_funpow_next: "index ((next_card ^^ n) s) = index s + int n"
  by (induction n) (simp_all add: next_card_def)

lemma cards_funpow_next: "cards ((next_card ^^ n) s) = cards s"
  by (induction n) (simp_all add: next_card_def)

lemma do_call_keeps:
  "\<not> is_reset c \<Longrightarrow> cards (do_call s c) = cards s \<and> index s \<le> index (do_call s c)"
  by (cases c) (simp_all add: check_cards check_index next_card_def)

lemma do_calls_keeps:
  "\<forall>c\<in>set calls. \<not> is_reset c \<Longrightarrow>
   cards (do_calls calls s) = cards s \<and> index s \<le> index (do_calls calls s)"
proof (induction calls arbitrary: s)
  case Nil
  show ?case by (simp add: do_calls_def)
next
  case (Cons c calls)
  from Cons.prems have c: "\<not> is_reset c" and rest: "\<forall>c\<in>set calls. \<not> is_reset c"
    by simp_all
  from c have one: "cards (do_call s c) = cards s \<and> index s \<le> index (do_call s c)"
    by (rule do_call_keeps)
  from rest have "cards (do_calls calls (do_call s c)) = cards (do_call s c)
      \<and> index (do_call s c) \<le> index (do_calls calls (do_call s c))"
    by (rule Cons.IH)
  with one show ?case by (simp add: do_calls_def)
qed

section \<open>Answering a card\<close>

text \<open>
  C1. In a state where \<^verbatim>\<open>has_next()\<close> holds and \<^verbatim>\<open>current()\<close> is the card \<open>c\<close> whose
  stored answer is \<open>a\<close>, \<^verbatim>\<open>check(a)\<close> returns \<^verbatim>\<open>True\<close>, adds exactly one to the score and
  leaves the missed cards, the index, the cards and the total as they were.
\<close>

theorem check_correct_answer:
  assumes "has_next s" and "current s = Inr c" and "c ''answer'' = Some a"
  shows "fst (check a s) = Inr True
    \<and> score (snd (check a s)) = score s + 1
    \<and> missed_cards (snd (check a s)) = missed_cards s
    \<and> index (snd (check a s)) = index s
    \<and> cards (snd (check a s)) = cards s
    \<and> total (snd (check a s)) = total s"
  using check_right[OF assms(2,3)] by simp

theorem check_correct_answer_witness:
  "has_next (flashcards_init [card_sum, card_product])
   \<and> current (flashcards_init [card_sum, card_product]) = Inr card_sum
   \<and> card_sum ''answer'' = Some (PStr ''4'')
   \<and> fst (check (PStr ''4'') (flashcards_init [card_sum, card_product])) = Inr True
   \<and> score (snd (check (PStr ''4'') (flashcards_init [card_sum, card_product]))) = 1
   \<and> missed_cards (snd (check (PStr ''4'') (flashcards_init [card_sum, card_product]))) = []
   \<and> index (snd (check (PStr ''4'') (flashcards_init [card_sum, card_product]))) = 0"
proof -
  let ?s = "flashcards_init [card_sum, card_product]"
  have h1: "has_next ?s" by (simp add: has_next_def flashcards_init_def)
  have h2: "current ?s = Inr card_sum"
    by (simp add: current_def getitem_def flashcards_init_def)
  have h3: "card_sum ''answer'' = Some (PStr ''4'')" by (simp add: card_sum_def)
  from check_correct_answer[OF h1 h2 h3] h1 h2 h3 show ?thesis
    by (simp add: flashcards_init_def)
qed

text \<open>
  C2. In a state where \<^verbatim>\<open>has_next()\<close> holds and \<^verbatim>\<open>current()\<close> is the card \<open>c\<close> whose
  stored answer is \<open>a\<close>, any number (at least one) of calls of \<^verbatim>\<open>check\<close> with selections
  that differ from \<open>a\<close> all return \<^verbatim>\<open>False\<close>, leave the score, the index and the cards
  unchanged, and append \<open>c\<close> to the missed cards once if no equal card is there yet and
  not at all otherwise. In a session state (one reached from the constructor by calls of
  the methods) the card then occurs in the missed cards exactly once.
\<close>

theorem check_wrong_answers:
  assumes "has_next s" and "current s = Inr c" and "c ''answer'' = Some a"
    and "sels \<noteq> []" and "\<forall>x\<in>set sels. x \<noteq> a"
  shows "fst (checks sels s) = replicate (length sels) (Inr False)
    \<and> score (snd (checks sels s)) = score s
    \<and> index (snd (checks sels s)) = index s
    \<and> cards (snd (checks sels s)) = cards s
    \<and> missed_cards (snd (checks sels s)) =
        (if c \<in> set (missed_cards s) then missed_cards s else missed_cards s @ [c])
    \<and> (reachable s \<longrightarrow> count_list (missed_cards (snd (checks sels s))) c = 1)"
proof -
  have run: "checks sels s =
     (replicate (length sels) (Inr False),
      s\<lparr>missed_cards := (if c \<in> set (missed_cards s) then missed_cards s
                          else missed_cards s @ [c])\<rparr>)"
    using assms(2-5) by (rule checks_wrong)
  have once: "count_list (missed_cards (snd (checks sels s))) c = 1" if "reachable s"
  proof -
    from that have "distinct (missed_cards s)"
      using reachable_inv by (simp add: session_inv_def)
    then have "count_list (missed_cards s) c = (if c \<in> set (missed_cards s) then 1 else 0)"
      by (rule count_list_distinct)
    then show ?thesis using run by simp
  qed
  from run once show ?thesis by simp
qed

theorem check_wrong_answers_witness:
  "has_next (flashcards_init [card_sum, card_product])
   \<and> current (flashcards_init [card_sum, card_product]) = Inr card_sum
   \<and> card_sum ''answer'' = Some (PStr ''4'')
   \<and> [PStr ''3'', PStr ''5'', PStr ''3''] \<noteq> []
   \<and> PStr ''3'' \<noteq> PStr ''4'' \<and> PStr ''5'' \<noteq> PStr ''4''
   \<and> reachable (flashcards_init [card_sum, card_product])
   \<and> fst (checks [PStr ''3'', PStr ''5'', PStr ''3''] (flashcards_init [card_sum, card_product]))
       = [Inr False, Inr False, Inr False]
   \<and> missed_cards (snd (checks [PStr ''3'', PStr ''5'', PStr ''3'']
         (flashcards_init [card_sum, card_product]))) = [card_sum]
   \<and> count_list (missed_cards (snd (checks [PStr ''3'', PStr ''5'', PStr ''3'']
         (flashcards_init [card_sum, card_product])))) card_sum = 1"
proof -
  let ?s = "flashcards_init [card_sum, card_product]"
  let ?sels = "[PStr ''3'', PStr ''5'', PStr ''3'']"
  have h1: "has_next ?s" by (simp add: has_next_def flashcards_init_def)
  have h2: "current ?s = Inr card_sum"
    by (simp add: current_def getitem_def flashcards_init_def)
  have h3: "card_sum ''answer'' = Some (PStr ''4'')" by (simp add: card_sum_def)
  have h4: "?sels \<noteq> []" by simp
  have h5: "\<forall>x\<in>set ?sels. x \<noteq> PStr ''4''" by simp
  have h6: "reachable ?s" by (rule r_init)
  have m: "missed_cards ?s = []" by (simp add: flashcards_init_def)
  from check_wrong_answers[OF h1 h2 h3 h4 h5] h1 h2 h3 h5 h6 m show ?thesis
    by simp
qed

section \<open>Reviewing the missed cards\<close>

text \<open>
  C3. From any state, \<^verbatim>\<open>reset_for_review()\<close> sets the total to the number of cards that
  were missed, the score and the index to zero, empties the missed cards, and makes the
  working cards a permutation of the cards that were missed.
\<close>

theorem reset_for_review_restarts:
  "total (reset_for_review rnd s) = int (length (missed_cards s))
   \<and> score (reset_for_review rnd s) = 0
   \<and> index (reset_for_review rnd s) = 0
   \<and> missed_cards (reset_for_review rnd s) = []
   \<and> mset (cards (reset_for_review rnd s)) = mset (missed_cards s)"
  by (simp add: reset_for_review_def Let_def mset_random_shuffle length_random_shuffle)

section \<open>Progress through the deck\<close>

text \<open>
  C4. The constructor makes the total the length of the working cards and every call of
  \<^verbatim>\<open>check\<close>, \<^verbatim>\<open>next\<close> and \<^verbatim>\<open>reset_for_review\<close> keeps it so; hence in every session
  state the total is the length of the working cards and \<^verbatim>\<open>has_next()\<close>, which compares
  the index with that length, holds exactly when the index is below the total.
\<close>

theorem has_next_iff_index_below_total:
  "total (flashcards_init cs) = int (length (cards (flashcards_init cs)))
   \<and> (total s = int (length (cards s)) \<longrightarrow>
        total (do_call s c) = int (length (cards (do_call s c))))
   \<and> (reachable r \<longrightarrow>
        total r = int (length (cards r)) \<and> (has_next r \<longleftrightarrow> index r < total r))"
proof -
  have a: "total (flashcards_init cs) = int (length (cards (flashcards_init cs)))"
    by (simp add: flashcards_init_def)
  have b: "total (do_call s c) = int (length (cards (do_call s c)))"
    if "total s = int (length (cards s))"
    using that
    by (cases c) (simp_all add: check_cards check_total next_card_def reset_for_review_def Let_def)
  have d: "total r = int (length (cards r)) \<and> (has_next r \<longleftrightarrow> index r < total r)"
    if "reachable r"
  proof -
    from that have "session_inv r" by (rule reachable_inv)
    then show ?thesis by (simp add: session_inv_def has_next_def)
  qed
  from a b d show ?thesis by blast
qed

theorem has_next_iff_index_below_total_witness:
  "total (flashcards_init [card_sum]) = int (length (cards (flashcards_init [card_sum])))
   \<and> total (do_call (flashcards_init [card_sum]) Next) = 1
   \<and> length (cards (do_call (flashcards_init [card_sum]) Next)) = 1
   \<and> reachable (do_call (flashcards_init [card_sum]) Next)
   \<and> \<not> has_next (do_call (flashcards_init [card_sum]) Next)
   \<and> \<not> index (do_call (flashcards_init [card_sum]) Next)
         < total (do_call (flashcards_init [card_sum]) Next)"
proof -
  let ?s = "flashcards_init [card_sum]"
  have h1: "total ?s = int (length (cards ?s))" by (simp add: flashcards_init_def)
  have h2: "reachable (do_call ?s Next)" by (rule r_call) (rule r_init)
  have v: "index (do_call ?s Next) = 1" "length (cards (do_call ?s Next)) = 1"
    by (simp_all add: flashcards_init_def next_card_def)
  from has_next_iff_index_below_total[of "[card_sum]" ?s Next "do_call ?s Next"] h1 h2 v
  show ?thesis by simp
qed

text \<open>
  C5. A fresh session on a deck of \<open>n\<close> cards has the total \<open>n\<close>, and no next card after
  \<open>n\<close> calls of \<^verbatim>\<open>next\<close>.
\<close>

theorem no_next_after_total_advances:
  "total (flashcards_init cs) = int (length cs)
   \<and> \<not> has_next ((next_card ^^ length cs) (flashcards_init cs))"
proof -
  have "total (flashcards_init cs) = int (length cs)"
    by (simp add: flashcards_init_def)
  moreover have "index ((next_card ^^ length cs) (flashcards_init cs)) = int (length cs)"
    by (simp add: index_funpow_next flashcards_init_def)
  moreover have "cards ((next_card ^^ length cs) (flashcards_init cs)) = cs"
    by (simp add: cards_funpow_next flashcards_init_def)
  ultimately show ?thesis by (simp add: has_next_def)
qed

text \<open>
  C6. In a session state where \<^verbatim>\<open>has_next()\<close> holds, \<^verbatim>\<open>current()\<close> returns the card at
  the index; in any state where \<^verbatim>\<open>has_next()\<close> does not hold (the index is not below the
  length of the working cards) it raises \<^verbatim>\<open>IndexError\<close>.
\<close>

theorem current_card_or_index_error:
  "(reachable s \<longrightarrow> has_next s \<longrightarrow> current s = Inr (cards s ! nat (index s)))
   \<and> (\<not> has_next s \<longrightarrow> current s = Inl IndexError)"
proof -
  have "current s = Inr (cards s ! nat (index s))" if "reachable s" and "has_next s"
  proof -
    from that(1) have "0 \<le> index s"
      using reachable_inv by (simp add: session_inv_def)
    then show ?thesis using that(2) by (rule current_in_range)
  qed
  then show ?thesis by (simp add: current_complete)
qed

theorem current_card_or_index_error_witness:
  "reachable (do_call (flashcards_init [card_sum, card_product]) Next)
   \<and> has_next (do_call (flashcards_init [card_sum, card_product]) Next)
   \<and> current (do_call (flashcards_init [card_sum, card_product]) Next) = Inr card_product
   \<and> \<not> has_next (do_call (flashcards_init [card_sum]) Next)
   \<and> current (do_call (flashcards_init [card_sum]) Next) = Inl IndexError"
proof -
  let ?s = "do_call (flashcards_init [card_sum, card_product]) Next"
  let ?t = "do_call (flashcards_init [card_sum]) Next"
  have h1: "reachable ?s" by (rule r_call) (rule r_init)
  have h2: "has_next ?s" by (simp add: has_next_def flashcards_init_def next_card_def)
  have h3: "\<not> has_next ?t" by (simp add: has_next_def flashcards_init_def next_card_def)
  have v: "cards ?s ! nat (index ?s) = card_product"
    by (simp add: flashcards_init_def next_card_def)
  from current_card_or_index_error[of ?s] current_card_or_index_error[of ?t] h1 h2 h3 v
  show ?thesis by simp
qed

text \<open>
  C10. Once \<^verbatim>\<open>has_next()\<close> is false it stays false under any sequence of calls of
  \<^verbatim>\<open>check\<close> and \<^verbatim>\<open>next\<close>: such calls never lower the index and never change the working
  cards.
\<close>

theorem complete_stays_complete:
  assumes "\<not> has_next s" and "\<forall>c\<in>set calls. \<not> is_reset c"
  shows "\<not> has_next (do_calls calls s)
    \<and> index s \<le> index (do_calls calls s)
    \<and> cards (do_calls calls s) = cards s"
proof -
  from assms(2) have keep: "cards (do_calls calls s) = cards s
      \<and> index s \<le> index (do_calls calls s)"
    by (rule do_calls_keeps)
  with assms(1) show ?thesis by (simp add: has_next_def)
qed

theorem complete_stays_complete_witness:
  "\<not> has_next (next_card (flashcards_init [card_sum]))
   \<and> \<not> is_reset (Check (PStr ''4'')) \<and> \<not> is_reset Next \<and> \<not> is_reset (Check (PStr ''3''))
   \<and> \<not> has_next (do_calls [Check (PStr ''4''), Next, Check (PStr ''3'')]
                     (next_card (flashcards_init [card_sum])))
   \<and> index (do_calls [Check (PStr ''4''), Next, Check (PStr ''3'')]
               (next_card (flashcards_init [card_sum]))) = 2"
proof -
  let ?s = "next_card (flashcards_init [card_sum])"
  let ?calls = "[Check (PStr ''4''), Next, Check (PStr ''3'')]"
  have h1: "\<not> has_next ?s" by (simp add: has_next_def flashcards_init_def next_card_def)
  have h2: "\<forall>c\<in>set ?calls. \<not> is_reset c" by simp
  have v: "index (do_calls ?calls ?s) = 2"
    by (simp add: do_calls_def check_index next_card_def flashcards_init_def)
  from complete_stays_complete[OF h1 h2] h1 h2 v show ?thesis by simp
qed

section \<open>Finding and loading decks\<close>

lemma append_le_append: "(p :: pystr) @ x \<le> p @ y \<longleftrightarrow> x \<le> y"
  by (induction p) simp_all

lemma sort_map_prefix: "sort (map ((@) (p :: pystr)) xs) = map ((@) p) (sort xs)"
proof (rule properties_for_sort)
  show "mset (map ((@) p) (sort xs)) = mset (map ((@) p) xs)" by simp
  have "sorted (sort xs)" by simp
  then show "sorted (map ((@) p) (sort xs))"
    by (simp add: sorted_map append_le_append)
qed

lemma path_join_prefix:
  "\<not> startswith f (py ''/'') \<Longrightarrow>
   path_join d f = (if d = [] \<or> endswith d (py ''/'') then d else d @ py ''/'') @ f"
  by (simp add: path_join_def)

lemma find_decks_listed:
  assumes "isdir sys directory" and "listdir sys directory = Inr names"
    and "\<forall>f\<in>set names. \<not> startswith f (py ''/'')"
  shows "find_decks sys directory =
      Inr (map (path_join directory)
             (sort (filter (\<lambda>f. endswith (lower f) (py ''.json'')) names)))"
proof -
  let ?p = "if directory = [] \<or> endswith directory (py ''/'') then directory
            else directory @ py ''/''"
  let ?js = "filter (\<lambda>f. endswith (lower f) (py ''.json'')) names"
  have pre: "path_join directory f = ?p @ f" if "f \<in> set names" for f
    using that assms(3) path_join_prefix by blast
  have "map (path_join directory) ?js = map ((@) ?p) ?js"
    by (rule map_cong) (simp_all add: pre)
  then have "sort (map (path_join directory) ?js) = map ((@) ?p) (sort ?js)"
    by (simp only: sort_map_prefix)
  also have "\<dots> = map (path_join directory) (sort ?js)"
    by (rule map_cong) (simp_all add: pre)
  finally have "sort (map (path_join directory) ?js) = map (path_join directory) (sort ?js)" .
  moreover have "find_decks sys directory = Inr (sort (map (path_join directory) ?js))"
    using assms(1,2) by (simp add: find_decks_def)
  ultimately show ?thesis by simp
qed




text \<open>
  C8. On a directory that does not exist (\<^verbatim>\<open>os.path.isdir\<close> is false), \<^verbatim>\<open>find_decks\<close>
  returns the empty list and raises nothing.
\<close>

theorem find_decks_missing_directory:
  "\<not> isdir sys directory \<Longrightarrow> find_decks sys directory = Inr []"
  by (simp add: find_decks_def)

theorem find_decks_missing_directory_witness:
  "\<not> isdir example_system (py ''cards'') \<and> find_decks example_system (py ''cards'') = Inr []"
proof -
  have h: "\<not> isdir example_system (py ''cards'')" by code_simp
  from find_decks_missing_directory[OF h] h show ?thesis by simp
qed

text \<open>
  C9 as stated (every existing directory yields the list of its deck files) does not
  hold where the directory exists and \<^verbatim>\<open>os.listdir\<close> raises: the call is not guarded,
  and \<^verbatim>\<open>find_decks\<close> raises with it.
\<close>

theorem find_decks_unreadable_directory_counterexample:
  "isdir locked_system (py ''decks'')
   \<and> find_decks locked_system (py ''decks'') = Inl (OSError (py ''Permission denied''))"
  by code_simp

text \<open>
  C9, amended. On an existing directory, \<^verbatim>\<open>find_decks\<close> raises what \<^verbatim>\<open>os.listdir\<close>
  raises; when the listing succeeds it returns the entries whose lower-cased name ends
  with \<^verbatim>\<open>.json\<close>, and only those, each joined with the directory, in the order of their
  names, and the returned paths are in order as well. (The names of a listing never start
  with the separator.)
\<close>

theorem find_decks_lists_json_files:
  assumes "isdir sys directory"
  shows "(listdir sys directory = Inl e \<longrightarrow> find_decks sys directory = Inl e)
    \<and> (listdir sys directory = Inr names \<longrightarrow>
        (\<forall>f\<in>set names. \<not> startswith f (py ''/'')) \<longrightarrow>
        find_decks sys directory =
          Inr (map (path_join directory)
                 (sort (filter (\<lambda>f. endswith (lower f) (py ''.json'')) names)))
        \<and> (\<forall>ps. find_decks sys directory = Inr ps \<longrightarrow>
              sorted ps
              \<and> set ps = path_join directory `
                   {f \<in> set names. endswith (lower f) (py ''.json'')}))"
proof -
  have a: "find_decks sys directory = Inl e" if "listdir sys directory = Inl e"
    using assms that by (simp add: find_decks_def)
  have b: "find_decks sys directory =
          Inr (map (path_join directory)
                 (sort (filter (\<lambda>f. endswith (lower f) (py ''.json'')) names)))
        \<and> (\<forall>ps. find_decks sys directory = Inr ps \<longrightarrow>
              sorted ps
              \<and> set ps = path_join directory `
                   {f \<in> set names. endswith (lower f) (py ''.json'')})"
    if l: "listdir sys directory = Inr names"
      and n: "\<forall>f\<in>set names. \<not> startswith f (py ''/'')"
  proof -
    let ?js = "filter (\<lambda>f. endswith (lower f) (py ''.json'')) names"
    have byname: "find_decks sys directory = Inr (map (path_join directory) (sort ?js))"
      using assms l n by (rule find_decks_listed)
    have res: "find_decks sys directory = Inr (sort (map (path_join directory) ?js))"
      using assms l by (simp add: find_decks_def)
    have "sorted (sort (map (path_join directory) ?js))" by simp
    moreover have "set (sort (map (path_join directory) ?js)) =
        path_join directory ` {f \<in> set names. endswith (lower f) (py ''.json'')}"
      by auto
    ultimately have "\<forall>ps. find_decks sys directory = Inr ps \<longrightarrow>
        sorted ps
        \<and> set ps = path_join directory ` {f \<in> set names. endswith (lower f) (py ''.json'')}"
      using res by simp
    with byname show ?thesis by simp
  qed
  from a b show ?thesis by blast
qed

theorem find_decks_lists_json_files_witness:
  "isdir example_system (py ''decks'')
   \<and> listdir example_system (py ''decks'')
       = Inr [py ''math.json'', py ''notes.txt'', py ''EMPTY.JSON'', py ''list.json'',
              py ''broken.json'']
   \<and> \<not> startswith (py ''math.json'') (py ''/'') \<and> \<not> startswith (py ''notes.txt'') (py ''/'')
   \<and> \<not> startswith (py ''EMPTY.JSON'') (py ''/'') \<and> \<not> startswith (py ''list.json'') (py ''/'')
   \<and> \<not> startswith (py ''broken.json'') (py ''/'')
   \<and> find_decks example_system (py ''decks'')
       = Inr [py ''decks/EMPTY.JSON'', py ''decks/broken.json'', py ''decks/list.json'',
              py ''decks/math.json'']
   \<and> isdir locked_system (py ''decks'')
   \<and> listdir locked_system (py ''decks'') = Inl (OSError (py ''Permission denied''))
   \<and> find_decks locked_system (py ''decks'') = Inl (OSError (py ''Permission denied''))"
proof -
  let ?names = "[py ''math.json'', py ''notes.txt'', py ''EMPTY.JSON'', py ''list.json'',
                 py ''broken.json'']"
  let ?found = "[py ''decks/EMPTY.JSON'', py ''decks/broken.json'', py ''decks/list.json'',
                 py ''decks/math.json'']"
  let ?denied = "OSError (py ''Permission denied'')"
  have h1: "isdir example_system (py ''decks'')" by code_simp
  have h2: "listdir example_system (py ''decks'') = Inr ?names" by code_simp
  have n1: "\<not> startswith (py ''math.json'') (py ''/'')" by code_simp
  have n2: "\<not> startswith (py ''notes.txt'') (py ''/'')" by code_simp
  have n3: "\<not> startswith (py ''EMPTY.JSON'') (py ''/'')" by code_simp
  have n4: "\<not> startswith (py ''list.json'') (py ''/'')" by code_simp
  have n5: "\<not> startswith (py ''broken.json'') (py ''/'')" by code_simp
  from n1 n2 n3 n4 n5 have h3: "\<forall>f\<in>set ?names. \<not> startswith f (py ''/'')"
    by (simp only: list.set ball_simps insert_iff) simp
  have v: "map (path_join (py ''decks''))
        (sort (filter (\<lambda>f. endswith (lower f) (py ''.json'')) ?names)) = ?found"
    by code_simp
  have k1: "isdir locked_system (py ''decks'')" by code_simp
  have k2: "listdir locked_system (py ''decks'') = Inl ?denied" by code_simp
  note listed = find_decks_lists_json_files[OF h1, of _ ?names, THEN conjunct2,
      THEN mp, OF h2, THEN mp, OF h3, THEN conjunct1]
  note refused = find_decks_lists_json_files[OF k1, of ?denied, THEN conjunct1,
      THEN mp, OF k2]
  from listed v have c1: "find_decks example_system (py ''decks'') = Inr ?found"
    by (simp only:)
  from h1 h2 n1 n2 n3 n4 n5 c1 k1 k2 refused show ?thesis by (intro conjI)
qed




end
